theory Spec2Isabelle
  imports Complex_Main "HOL-Library.Word"
begin

section \<open>The Matrix class of src/matrix.cpp\<close>

text \<open>
  The class stores its elements as \<^verbatim>\<open>std::vector<std::vector<double>> data\<close> next to
  the two dimensions \<^verbatim>\<open>size_t rows, cols\<close>.  The element type is kept abstract: a type
  \<open>'a\<close> that only has to provide the operations the code applies to a double
  (\<open>0\<close>, \<open>1\<close>, \<open>+\<close>, \<open>-\<close>, \<open>*\<close>, \<open>/\<close>), with no law assumed about any of them, so
  nothing proved below rests on an algebraic property that floating-point arithmetic
  lacks.  The comparison \<^verbatim>\<open>scalar == 0.0\<close> is read as equality with \<open>0\<close>.
  Dimensions and indices are natural numbers; the one place where the width of
  \<^verbatim>\<open>size_t\<close> matters, the shifts of the matrix product, works on 64-bit words.
\<close>

subsection \<open>Errors\<close>

text \<open>
  \<open>out_of_range\<close> and \<open>invalid_argument\<close> are the two exceptions the code throws, with
  their messages.  The other two constructors make explicit what C++ leaves undefined:
  \<open>raw_index i j\<close> is an unchecked access \<^verbatim>\<open>data[i][j]\<close> outside the storage, and
  \<open>shift_count n\<close> a shift of a 64-bit value by \<open>n \<ge> 64\<close> positions.
\<close>

datatype error =
    out_of_range string
  | invalid_argument string
  | raw_index nat nat
  | shift_count nat

subsection \<open>Data\<close>

record 'a Matrix =
  data :: "'a list list"
  rows :: nat
  cols :: nat

text \<open>The class invariant: \<open>rows\<close> rows of \<open>cols\<close> elements each.\<close>

definition well_shaped :: "'a Matrix \<Rightarrow> bool" where
  "well_shaped m \<longleftrightarrow>
     length (data m) = rows m \<and> list_all (\<lambda>r. length r = cols m) (data m)"

definition elem :: "'a Matrix \<Rightarrow> nat \<Rightarrow> nat \<Rightarrow> 'a" where
  "elem m i j = data m ! i ! j"

subsection \<open>Constructors and assignment\<close>

definition Matrix_default :: "'a Matrix" where
  "Matrix_default = \<lparr>data = [], rows = 0, cols = 0\<rparr>"

definition Matrix_value :: "nat \<Rightarrow> nat \<Rightarrow> 'a \<Rightarrow> 'a Matrix" where
  "Matrix_value r c v = \<lparr>data = replicate r (replicate c v), rows = r, cols = c\<rparr>"

definition Matrix_zero :: "nat \<Rightarrow> nat \<Rightarrow> 'a::zero Matrix" where
  "Matrix_zero r c = \<lparr>data = replicate r (replicate c 0), rows = r, cols = c\<rparr>"

definition assign :: "'a Matrix \<Rightarrow> 'a Matrix \<Rightarrow> 'a Matrix" where
  "assign this other = this\<lparr>data := data other, rows := rows other, cols := cols other\<rparr>"

subsection \<open>Expressions, statements and loops\<close>

text \<open>
  An expression yields a value or an error.  A statement runs on a state and returns the
  state it leaves behind together with the error that stopped it, if any.
\<close>

definition ebind :: "error + 'a \<Rightarrow> ('a \<Rightarrow> error + 'b) \<Rightarrow> error + 'b" where
  "ebind r f = (case r of Inl e \<Rightarrow> Inl e | Inr x \<Rightarrow> f x)"

definition store :: "'s \<Rightarrow> error + 's \<Rightarrow> 's \<times> error option" where
  "store s r = (case r of Inl e \<Rightarrow> (s, Some e) | Inr s' \<Rightarrow> (s', None))"

definition returning :: "'s \<times> error option \<Rightarrow> error + 's" where
  "returning r = (case r of (s, None) \<Rightarrow> Inr s | (s, Some e) \<Rightarrow> Inl e)"

primrec for_each ::
  "nat list \<Rightarrow> (nat \<Rightarrow> 's \<Rightarrow> 's \<times> error option) \<Rightarrow> 's \<Rightarrow> 's \<times> error option" where
  "for_each [] body s = (s, None)"
| "for_each (i # is) body s =
     (case body i s of
        (s', Some e) \<Rightarrow> (s', Some e)
      | (s', None) \<Rightarrow> for_each is body s')"

text \<open>\<^verbatim>\<open>for (size_t i = 0; i < n; ++i) body\<close>\<close>

definition for_upto ::
  "nat \<Rightarrow> (nat \<Rightarrow> 's \<Rightarrow> 's \<times> error option) \<Rightarrow> 's \<Rightarrow> 's \<times> error option" where
  "for_upto n body s = for_each [0..<n] body s"

text \<open>
  \<^verbatim>\<open>for (size_t i = i0; i << n; ++i) body\<close>: the loop goes on while the counter shifted
  left by \<open>n\<close> is not zero.  The counter is a 64-bit word, so \<^verbatim>\<open>++i\<close> wraps around.
\<close>

function shl_loop ::
  "nat \<Rightarrow> 64 word \<Rightarrow> (nat \<Rightarrow> 's \<Rightarrow> 's \<times> error option) \<Rightarrow> 's \<Rightarrow> 's \<times> error option" where
  "shl_loop n i body s =
     (if 64 \<le> n then (s, Some (shift_count n))
      else if push_bit n i = 0 then (s, None)
      else (case body (unat i) s of
              (s', Some e) \<Rightarrow> (s', Some e)
            | (s', None) \<Rightarrow> shl_loop n (i + 1) body s'))"
  by pat_completeness auto
termination
proof (relation "measure (\<lambda>(n, i, body, s). unat (- i))")
  show "wf (measure (\<lambda>(n, i, body, s). unat (- i)))"
    by simp
next
  fix n :: nat and i :: "64 word" and body :: "nat \<Rightarrow> 's \<Rightarrow> 's \<times> error option"
    and s x :: 's and y :: "error option"
  assume "push_bit n i \<noteq> 0"
  then have "i \<noteq> 0"
    by auto
  then have "- i \<noteq> 0"
    by simp
  then have "unat (- i - 1) = unat (- i) - 1" and "unat (- i) \<noteq> 0"
    by (simp_all add: unat_minus_one unat_eq_0)
  moreover have "- (i + 1) = - i - 1"
    by simp
  ultimately show "((n, i + 1, body, x), (n, i, body, s))
      \<in> measure (\<lambda>(n, i, body, s). unat (- i))"
    by simp
qed

subsection \<open>Element access\<close>

text \<open>The unchecked accesses \<^verbatim>\<open>data[i][j]\<close>, guarded.\<close>

definition raw_get :: "'a Matrix \<Rightarrow> nat \<Rightarrow> nat \<Rightarrow> error + 'a" where
  "raw_get m i j =
     (if i < length (data m) \<and> j < length (data m ! i) then Inr (data m ! i ! j)
      else Inl (raw_index i j))"

definition raw_upd :: "'a Matrix \<Rightarrow> nat \<Rightarrow> nat \<Rightarrow> ('a \<Rightarrow> 'a) \<Rightarrow> error + 'a Matrix" where
  "raw_upd m i j f =
     (if i < length (data m) \<and> j < length (data m ! i)
      then Inr (m\<lparr>data := (data m)[i := (data m ! i)[j := f (data m ! i ! j)]]\<rparr>)
      else Inl (raw_index i j))"

text \<open>The two forms of \<^verbatim>\<open>operator()\<close>: the const one reads, the other one yields a
  reference through which the caller assigns or accumulates.\<close>

definition at_const :: "'a Matrix \<Rightarrow> nat \<Rightarrow> nat \<Rightarrow> error + 'a" where
  "at_const m row col =
     (if row \<ge> rows m \<or> col \<ge> cols m then Inl (out_of_range ''Matrix index out of range'')
      else raw_get m row col)"

definition at_upd :: "'a Matrix \<Rightarrow> nat \<Rightarrow> nat \<Rightarrow> ('a \<Rightarrow> 'a) \<Rightarrow> error + 'a Matrix" where
  "at_upd m row col f =
     (if row \<ge> rows m \<or> col \<ge> cols m then Inl (out_of_range ''Matri index out of range'')
      else raw_upd m row col f)"

subsection \<open>Matrix operations\<close>

definition operator_plus :: "'a::{zero,plus} Matrix \<Rightarrow> 'a Matrix \<Rightarrow> error + 'a Matrix" where
  "operator_plus this other =
     (if rows this \<noteq> rows other \<or> cols this \<noteq> cols other
      then Inl (invalid_argument ''Matrix dimensions do not match'')
      else returning
        (for_upto (rows this) (\<lambda>i.
           for_upto (cols this) (\<lambda>j result.
             store result
               (ebind (raw_get this i j) (\<lambda>x.
                ebind (at_const other i j) (\<lambda>y.
                at_upd result i j (\<lambda>_. x + y))))))
           (Matrix_zero (rows this) (cols this))))"

definition operator_minus :: "'a::{zero,minus} Matrix \<Rightarrow> 'a Matrix \<Rightarrow> error + 'a Matrix" where
  "operator_minus this other =
     (if rows this \<noteq> rows other \<or> cols this \<noteq> cols other
      then Inl (invalid_argument ''Matrix dimensions do not match'')
      else returning
        (for_upto (rows this) (\<lambda>i.
           for_upto (cols this) (\<lambda>j result.
             store result
               (ebind (raw_get this i j) (\<lambda>x.
                ebind (at_const other i j) (\<lambda>y.
                at_upd result i j (\<lambda>_. x - y))))))
           (Matrix_zero (rows this) (cols this))))"

text \<open>The matrix product.  Its two outer loops are written with \<^verbatim>\<open><<\<close>:
  \<^verbatim>\<open>for (size_t i = 0; i << rows; ++i)\<close> and \<^verbatim>\<open>for (size_t j = 0; j << other.cols; ++j)\<close>.\<close>

definition operator_times ::
  "'a::{zero,plus,times} Matrix \<Rightarrow> 'a Matrix \<Rightarrow> error + 'a Matrix" where
  "operator_times this other =
     (if cols this \<noteq> rows other
      then Inl (invalid_argument ''Invlaid dimensions for matrix multiplication'')
      else returning
        (shl_loop (rows this) 0 (\<lambda>i.
           shl_loop (cols other) 0 (\<lambda>j.
             for_upto (cols this) (\<lambda>k result.
               store result
                 (ebind (raw_get this i k) (\<lambda>x.
                  ebind (at_const other k j) (\<lambda>y.
                  at_upd result i j (\<lambda>r. r + x * y)))))))
           (Matrix_zero (rows this) (cols other))))"

subsection \<open>Scalar operations\<close>

definition operator_times_scalar :: "'a::{zero,times} Matrix \<Rightarrow> 'a \<Rightarrow> error + 'a Matrix" where
  "operator_times_scalar this scalar =
     returning
       (for_upto (rows this) (\<lambda>i.
          for_upto (cols this) (\<lambda>j result.
            store result
              (ebind (raw_get this i j) (\<lambda>x.
               at_upd result i j (\<lambda>_. x * scalar)))))
          (Matrix_zero (rows this) (cols this)))"

definition operator_divide ::
  "'a::{zero,one,times,inverse} Matrix \<Rightarrow> 'a \<Rightarrow> error + 'a Matrix" where
  "operator_divide this scalar =
     (if scalar = 0 then Inl (invalid_argument ''Division by zero'')
      else operator_times_scalar this (1 / scalar))"

subsection \<open>In-place operations\<close>

text \<open>\<^verbatim>\<open>*this = *this + other\<close>: the sum is computed first; when it throws, the
  assignment is never reached.\<close>

definition operator_plus_assign ::
  "'a::{zero,plus} Matrix \<Rightarrow> 'a Matrix \<Rightarrow> 'a Matrix \<times> error option" where
  "operator_plus_assign this other =
     (case operator_plus this other of
        Inl e \<Rightarrow> (this, Some e)
      | Inr result \<Rightarrow> (assign this result, None))"

definition operator_minus_assign ::
  "'a::{zero,minus} Matrix \<Rightarrow> 'a Matrix \<Rightarrow> 'a Matrix \<times> error option" where
  "operator_minus_assign this other =
     (case operator_minus this other of
        Inl e \<Rightarrow> (this, Some e)
      | Inr result \<Rightarrow> (assign this result, None))"

definition operator_times_assign :: "'a::times Matrix \<Rightarrow> 'a \<Rightarrow> 'a Matrix \<times> error option" where
  "operator_times_assign this scalar =
     for_upto (rows this) (\<lambda>i.
       for_upto (cols this) (\<lambda>j m.
         store m (raw_upd m i j (\<lambda>x. x * scalar)))) this"

subsection \<open>Transpose\<close>

definition transpose_m :: "'a::zero Matrix \<Rightarrow> error + 'a Matrix" where
  "transpose_m this =
     returning
       (for_upto (rows this) (\<lambda>i.
          for_upto (cols this) (\<lambda>j result.
            store result
              (ebind (raw_get this i j) (\<lambda>x.
               at_upd result j i (\<lambda>_. x)))))
          (Matrix_zero (cols this) (rows this)))"

subsection \<open>Initialisation\<close>

text \<open>
  The random engine is a state \<open>'g\<close> that lives across calls (it is a function-local
  static), and \<open>dis min max\<close> stands for one draw from
  \<^verbatim>\<open>std::uniform_real_distribution<double> dis(min, max)\<close>: it returns the value drawn and
  the engine after the draw.  The inner loop of \<^verbatim>\<open>randomize\<close> is bounded by \<^verbatim>\<open>rows\<close>.
\<close>

definition randomize ::
  "('a \<Rightarrow> 'a \<Rightarrow> 'g \<Rightarrow> 'a \<times> 'g) \<Rightarrow> 'a \<Rightarrow> 'a \<Rightarrow> 'a Matrix \<times> 'g
     \<Rightarrow> ('a Matrix \<times> 'g) \<times> error option" where
  "randomize dis min_v max_v st =
     for_upto (rows (fst st)) (\<lambda>i.
       for_upto (rows (fst st)) (\<lambda>j (m, gen).
         (case dis min_v max_v gen of
            (v, gen') \<Rightarrow>
              (case raw_upd m i j (\<lambda>_. v) of
                 Inl e \<Rightarrow> ((m, gen'), Some e)
               | Inr m' \<Rightarrow> ((m', gen'), None))))) st"

text \<open>
  \<^verbatim>\<open>double limit = std::sqrt(6.0 / (rows + cols)); randomize(-limit, limit);\<close>
  The square root \<open>sqrt_d\<close> and the conversion \<open>of_size\<close> from \<^verbatim>\<open>size_t\<close> to double are
  parameters; the literal \<^verbatim>\<open>6.0\<close> is the conversion of 6.  The sum is a \<^verbatim>\<open>size_t\<close> sum.
\<close>

definition xavierInit ::
  "('a \<Rightarrow> 'a) \<Rightarrow> (nat \<Rightarrow> 'a) \<Rightarrow> ('a \<Rightarrow> 'a \<Rightarrow> 'g \<Rightarrow> 'a \<times> 'g) \<Rightarrow> 'a::{uminus,inverse} Matrix \<times> 'g
     \<Rightarrow> ('a Matrix \<times> 'g) \<times> error option" where
  "xavierInit sqrt_d of_size dis st =
     (let limit = sqrt_d (of_size 6 / of_size ((rows (fst st) + cols (fst st)) mod 2 ^ 64))
      in randomize dis (- limit) limit st)"

definition fill :: "'a Matrix \<Rightarrow> 'a \<Rightarrow> 'a Matrix \<times> error option" where
  "fill this v =
     for_upto (rows this) (\<lambda>i.
       for_upto (cols this) (\<lambda>j m.
         store m (raw_upd m i j (\<lambda>_. v)))) this"

definition identity :: "'a::{zero,one} Matrix \<Rightarrow> 'a Matrix \<times> error option" where
  "identity this =
     (if rows this \<noteq> cols this
      then (this, Some (invalid_argument ''Indentity Matrix must be square''))
      else (case fill this 0 of
              (m, Some e) \<Rightarrow> (m, Some e)
            | (m, None) \<Rightarrow>
                for_upto (rows m) (\<lambda>i m'. store m' (raw_upd m' i i (\<lambda>_. 1))) m))"

subsection \<open>Utility methods\<close>

definition getCol :: "'a::zero Matrix \<Rightarrow> nat \<Rightarrow> error + 'a Matrix" where
  "getCol this col =
     (if col \<ge> cols this then Inl (out_of_range ''Column index out of range'')
      else returning
        (for_upto (rows this) (\<lambda>i result.
           store result
             (ebind (raw_get this i col) (\<lambda>x.
              at_upd result i 0 (\<lambda>_. x))))
           (Matrix_zero (rows this) 1)))"

definition setCol :: "'a Matrix \<Rightarrow> nat \<Rightarrow> 'a Matrix \<Rightarrow> 'a Matrix \<times> error option" where
  "setCol this col colMatrix =
     (if col \<ge> cols this then (this, Some (out_of_range ''Column index out of range''))
      else if cols colMatrix \<noteq> 1 \<or> rows colMatrix \<noteq> rows this
      then (this, Some (invalid_argument ''Matrix Dimnesions must match''))
      else for_upto (rows this) (\<lambda>i m.
             store m
               (ebind (at_const colMatrix i 0) (\<lambda>x.
                raw_upd m i col (\<lambda>_. x)))) this)"

text \<open>\<^verbatim>\<open>data.clear(); data.resize(rows, std::vector<double>(cols, 0.0));\<close>\<close>

definition resize :: "'a::zero Matrix \<Rightarrow> nat \<Rightarrow> nat \<Rightarrow> 'a Matrix" where
  "resize this newRows newCols =
     (let m1 = this\<lparr>rows := newRows\<rparr>;
          m2 = m1\<lparr>cols := newCols\<rparr>;
          m3 = m2\<lparr>data := []\<rparr>
      in m3\<lparr>data := data m3 @ replicate (rows m3 - length (data m3)) (replicate (cols m3) 0)\<rparr>)"

subsection \<open>Example matrices\<close>

text \<open>The matrices of the concrete scenario, over the reals, where the small integers
  involved are computed exactly as they are in double precision.\<close>

definition A22 :: "real Matrix" where
  "A22 = \<lparr>data = [[1, 2], [3, 4]], rows = 2, cols = 2\<rparr>"

definition B22 :: "real Matrix" where
  "B22 = \<lparr>data = [[5, 6], [7, 8]], rows = 2, cols = 2\<rparr>"

definition M23 :: "real Matrix" where
  "M23 = \<lparr>data = [[1, 2, 3], [4, 5, 6]], rows = 2, cols = 3\<rparr>"

definition M32 :: "real Matrix" where
  "M32 = \<lparr>data = [[1, 4], [2, 5], [3, 6]], rows = 3, cols = 2\<rparr>"

definition M21 :: "real Matrix" where
  "M21 = \<lparr>data = [[1], [2]], rows = 2, cols = 1\<rparr>"

text \<open>A deterministic stand-in for the distribution and its engine: the engine is a
  counter, and the draws alternate between the two bounds.\<close>

definition counter_dis :: "real \<Rightarrow> real \<Rightarrow> nat \<Rightarrow> real \<times> nat" where
  "counter_dis min_v max_v gen = (if even gen then min_v else max_v, Suc gen)"

section \<open>Rules for loops and element access\<close>

lemma for_each_append:
  "for_each (xs @ ys) body s =
     (case for_each xs body s of
        (s', Some e) \<Rightarrow> (s', Some e)
      | (s', None) \<Rightarrow> for_each ys body s')"
  by (induction xs arbitrary: s) (auto split: prod.splits option.splits)

lemma for_upto_Suc:
  "for_upto (Suc n) body s =
     (case for_upto n body s of
        (s', Some e) \<Rightarrow> (s', Some e)
      | (s', None) \<Rightarrow> body n s')"
  by (auto simp: for_upto_def for_each_append split: prod.splits option.splits)

lemma for_upto_0: "for_upto 0 body s = (s, None)"
  by (simp add: for_upto_def)

lemma for_upto_rule:
  assumes "P 0 s"
    and "\<And>k t. k < n \<Longrightarrow> P k t \<Longrightarrow> \<exists>t'. body k t = (t', None) \<and> P (Suc k) t'"
  shows "\<exists>t. for_upto n body s = (t, None) \<and> P n t"
  using assms(2)
proof (induction n)
  case 0
  then show ?case using assms(1) by (simp add: for_upto_0)
next
  case (Suc n)
  then obtain t where t: "for_upto n body s = (t, None)" "P n t"
    by (metis less_Suc_eq)
  from Suc.prems [of n t] t(2) obtain t' where "body n t = (t', None)" "P (Suc n) t'"
    by auto
  with t show ?case
    by (simp add: for_upto_Suc)
qed

lemma well_shaped_nth: "well_shaped m \<Longrightarrow> i < rows m \<Longrightarrow> length (data m ! i) = cols m"
  by (auto simp: well_shaped_def list_all_length)

lemma well_shaped_zero: "well_shaped (Matrix_zero r c)"
  by (simp add: well_shaped_def Matrix_zero_def list_all_length)

lemma zero_sel: "rows (Matrix_zero r c) = r" "cols (Matrix_zero r c) = c"
  "i < r \<Longrightarrow> j < c \<Longrightarrow> elem (Matrix_zero r c) i j = 0"
  by (simp_all add: Matrix_zero_def elem_def)

lemma raw_get_ok:
  "well_shaped m \<Longrightarrow> i < rows m \<Longrightarrow> j < cols m \<Longrightarrow> raw_get m i j = Inr (elem m i j)"
  by (simp add: raw_get_def elem_def well_shaped_nth) (simp add: well_shaped_def)

lemma at_const_ok:
  "well_shaped m \<Longrightarrow> i < rows m \<Longrightarrow> j < cols m \<Longrightarrow> at_const m i j = Inr (elem m i j)"
  by (simp add: at_const_def raw_get_ok)

lemma raw_upd_ok:
  assumes "well_shaped m" "i < rows m" "j < cols m"
  shows "\<exists>m'. raw_upd m i j f = Inr m' \<and> well_shaped m' \<and> rows m' = rows m \<and> cols m' = cols m
     \<and> (\<forall>a b. a < rows m \<longrightarrow> b < cols m \<longrightarrow>
           elem m' a b = (if a = i \<and> b = j then f (elem m i j) else elem m a b))"
proof -
  from assms have len: "length (data m) = rows m" "\<And>a. a < rows m \<Longrightarrow> length (data m ! a) = cols m"
    by (auto simp: well_shaped_def list_all_length)
  let ?m' = "m\<lparr>data := (data m)[i := (data m ! i)[j := f (data m ! i ! j)]]\<rparr>"
  have "raw_upd m i j f = Inr ?m'"
    using assms len by (simp add: raw_upd_def)
  moreover have "well_shaped ?m'"
    using assms len by (simp add: well_shaped_def list_all_length nth_list_update)
  moreover have "\<forall>a b. a < rows m \<longrightarrow> b < cols m \<longrightarrow>
           elem ?m' a b = (if a = i \<and> b = j then f (elem m i j) else elem m a b)"
    using assms len by (auto simp: elem_def nth_list_update)
  ultimately show ?thesis
    by simp
qed

lemma at_upd_ok:
  assumes "well_shaped m" "i < rows m" "j < cols m"
  shows "\<exists>m'. at_upd m i j f = Inr m' \<and> well_shaped m' \<and> rows m' = rows m \<and> cols m' = cols m
     \<and> (\<forall>a b. a < rows m \<longrightarrow> b < cols m \<longrightarrow>
           elem m' a b = (if a = i \<and> b = j then f (elem m i j) else elem m a b))"
  using raw_upd_ok [OF assms, of f] assms by (simp add: at_upd_def)

lemma Matrix_eqI:
  fixes A B :: "'a Matrix"
  assumes "well_shaped A" "well_shaped B" "rows A = rows B" "cols A = cols B"
    and "\<And>i j. i < rows A \<Longrightarrow> j < cols A \<Longrightarrow> elem A i j = elem B i j"
  shows "A = B"
proof -
  have "data A = data B"
  proof (rule nth_equalityI)
    show "length (data A) = length (data B)"
      using assms by (simp add: well_shaped_def)
  next
    fix i assume "i < length (data A)"
    then have i: "i < rows A" using assms by (simp add: well_shaped_def)
    show "data A ! i = data B ! i"
    proof (rule nth_equalityI)
      show "length (data A ! i) = length (data B ! i)"
        using i assms by (simp add: well_shaped_nth)
    next
      fix j assume "j < length (data A ! i)"
      then have "j < cols A" using i assms by (simp add: well_shaped_nth)
      then show "data A ! i ! j = data B ! i ! j"
        using assms(5) [OF i] by (simp add: elem_def)
    qed
  qed
  then show ?thesis
    using assms by simp
qed

lemma shl_loop_0:
  "shl_loop n 0 body s = (if 64 \<le> n then (s, Some (shift_count n)) else (s, None))"
  by (subst shl_loop.simps) simp

text \<open>
  With the counter at 0 the condition \<^verbatim>\<open>i << rows\<close> is 0, so the outer loop of the
  product stops before its first iteration and the zero-filled result is returned as it
  was constructed.
\<close>

lemma operator_times_zero:
  "cols A = rows B \<Longrightarrow>
   operator_times A B =
     (if 64 \<le> rows A then Inl (shift_count (rows A)) else Inr (Matrix_zero (rows A) (cols B)))"
  by (simp add: operator_times_def shl_loop_0 returning_def)

lemma for_upto_stop:
  assumes "k < n"
    and "for_upto k body s = (t, None)"
    and "body k t = (t', Some e)"
  shows "for_upto n body s = (t', Some e)"
proof -
  have "[0..<n] = [0..<k] @ [k..<n]"
    using upt_add_eq_append [of 0 k "n - k"] assms(1) by simp
  also have "[k..<n] = k # [Suc k..<n]"
    using assms(1) by (rule upt_conv_Cons)
  finally show ?thesis
    using assms(2,3) by (simp add: for_upto_def for_each_append)
qed

lemma store_Inr: "store s (Inr t) = (t, None)"
  by (simp add: store_def)

lemma ebind_Inr: "ebind (Inr x) f = f x"
  by (simp add: ebind_def)

lemma elementwise_loops:
  assumes r0: "well_shaped r0" "rows r0 = n" "cols r0 = c"
    and step: "\<And>i j r. i < n \<Longrightarrow> j < c \<Longrightarrow> well_shaped r \<Longrightarrow> rows r = n \<Longrightarrow> cols r = c \<Longrightarrow>
      \<exists>r'. F i j r = Inr r' \<and> well_shaped r' \<and> rows r' = n \<and> cols r' = c
        \<and> (\<forall>a b. a < n \<longrightarrow> b < c \<longrightarrow>
              elem r' a b = (if a = i \<and> b = j then v i j else elem r a b))"
  shows "\<exists>r. for_upto n (\<lambda>i. for_upto c (\<lambda>j r. store r (F i j r))) r0 = (r, None)
    \<and> well_shaped r \<and> rows r = n \<and> cols r = c
    \<and> (\<forall>a b. a < n \<longrightarrow> b < c \<longrightarrow> elem r a b = v a b)"
proof -
  let ?P = "\<lambda>i r. well_shaped r \<and> rows r = n \<and> cols r = c
     \<and> (\<forall>a b. a < i \<longrightarrow> b < c \<longrightarrow> elem r a b = v a b)"
  have "\<exists>t. for_upto n (\<lambda>i. for_upto c (\<lambda>j r. store r (F i j r))) r0 = (t, None) \<and> ?P n t"
  proof (rule for_upto_rule [where P = ?P])
    show "?P 0 r0"
      using r0 by simp
  next
    fix k t
    assume k: "k < n" and t: "?P k t"
    let ?Q = "\<lambda>j r. well_shaped r \<and> rows r = n \<and> cols r = c
       \<and> (\<forall>a b. a < k \<longrightarrow> b < c \<longrightarrow> elem r a b = v a b)
       \<and> (\<forall>b. b < j \<longrightarrow> elem r k b = v k b)"
    have "\<exists>t'. for_upto c (\<lambda>j r. store r (F k j r)) t = (t', None) \<and> ?Q c t'"
    proof (rule for_upto_rule [where P = ?Q])
      show "?Q 0 t"
        using t by simp
    next
      fix j r
      assume j: "j < c" and r: "?Q j r"
      from step [OF k j] r obtain r' where r': "F k j r = Inr r'" "well_shaped r'"
        "rows r' = n" "cols r' = c"
        "\<And>a b. a < n \<Longrightarrow> b < c \<Longrightarrow>
              elem r' a b = (if a = k \<and> b = j then v k j else elem r a b)"
        by blast
      have "?Q (Suc j) r'"
        using r r' k j by (auto simp: less_Suc_eq)
      then show "\<exists>t'. store r (F k j r) = (t', None) \<and> ?Q (Suc j) t'"
        using r'(1) by (simp add: store_Inr)
    qed
    then obtain t' where t': "for_upto c (\<lambda>j r. store r (F k j r)) t = (t', None)" "?Q c t'"
      by blast
    have "?P (Suc k) t'"
      using t'(2) by (auto simp: less_Suc_eq)
    with t'(1) show "\<exists>t'. for_upto c (\<lambda>j r. store r (F k j r)) t = (t', None) \<and> ?P (Suc k) t'"
      by blast
  qed
  then show ?thesis
    by blast
qed

lemma raw_upd_same:
  assumes "well_shaped m" "i < rows m" "j < cols m"
  shows "raw_upd m i j (\<lambda>_. elem m i j) = Inr m"
proof -
  from assms have "i < length (data m)" "j < length (data m ! i)"
    by (simp_all add: well_shaped_def list_all_length)
  then show ?thesis
    by (simp add: raw_upd_def elem_def)
qed

lemma ws_A22: "well_shaped A22"
  by (simp add: well_shaped_def A22_def)

lemma ws_M23: "well_shaped M23"
  by (simp add: well_shaped_def M23_def)

lemma ws_M32: "well_shaped M32"
  by (simp add: well_shaped_def M32_def)

lemma ws_M21: "well_shaped M21"
  by (simp add: well_shaped_def M21_def)

section \<open>Element-wise arithmetic and its dimension checks\<close>

lemma operator_plus_ok:
  assumes "well_shaped A" "well_shaped B" "rows A = rows B" "cols A = cols B"
  shows "\<exists>R. operator_plus A B = Inr R \<and> well_shaped R \<and> rows R = rows A \<and> cols R = cols A
    \<and> (\<forall>i j. i < rows A \<longrightarrow> j < cols A \<longrightarrow> elem R i j = elem A i j + elem B i j)"
proof -
  have "\<exists>r. for_upto (rows A) (\<lambda>i. for_upto (cols A) (\<lambda>j r. store r
          (ebind (raw_get A i j) (\<lambda>x. ebind (at_const B i j) (\<lambda>y. at_upd r i j (\<lambda>_. x + y))))))
        (Matrix_zero (rows A) (cols A)) = (r, None)
    \<and> well_shaped r \<and> rows r = rows A \<and> cols r = cols A
    \<and> (\<forall>a b. a < rows A \<longrightarrow> b < cols A \<longrightarrow> elem r a b = elem A a b + elem B a b)"
  proof (rule elementwise_loops)
    fix i j and r :: "'a Matrix"
    assume "i < rows A" "j < cols A" "well_shaped r" "rows r = rows A" "cols r = cols A"
    then show "\<exists>r'. ebind (raw_get A i j) (\<lambda>x. ebind (at_const B i j) (\<lambda>y. at_upd r i j (\<lambda>_. x + y)))
        = Inr r' \<and> well_shaped r' \<and> rows r' = rows A \<and> cols r' = cols A
        \<and> (\<forall>a b. a < rows A \<longrightarrow> b < cols A \<longrightarrow>
              elem r' a b = (if a = i \<and> b = j then elem A i j + elem B i j else elem r a b))"
      using assms at_upd_ok [of r i j "\<lambda>_. elem A i j + elem B i j"]
      by (simp add: raw_get_ok at_const_ok ebind_Inr)
  qed (simp_all add: well_shaped_zero zero_sel)
  then show ?thesis
    using assms by (auto simp: operator_plus_def returning_def)
qed

lemma operator_minus_ok:
  assumes "well_shaped A" "well_shaped B" "rows A = rows B" "cols A = cols B"
  shows "\<exists>R. operator_minus A B = Inr R \<and> well_shaped R \<and> rows R = rows A \<and> cols R = cols A
    \<and> (\<forall>i j. i < rows A \<longrightarrow> j < cols A \<longrightarrow> elem R i j = elem A i j - elem B i j)"
proof -
  have "\<exists>r. for_upto (rows A) (\<lambda>i. for_upto (cols A) (\<lambda>j r. store r
          (ebind (raw_get A i j) (\<lambda>x. ebind (at_const B i j) (\<lambda>y. at_upd r i j (\<lambda>_. x - y))))))
        (Matrix_zero (rows A) (cols A)) = (r, None)
    \<and> well_shaped r \<and> rows r = rows A \<and> cols r = cols A
    \<and> (\<forall>a b. a < rows A \<longrightarrow> b < cols A \<longrightarrow> elem r a b = elem A a b - elem B a b)"
  proof (rule elementwise_loops)
    fix i j and r :: "'a Matrix"
    assume "i < rows A" "j < cols A" "well_shaped r" "rows r = rows A" "cols r = cols A"
    then show "\<exists>r'. ebind (raw_get A i j) (\<lambda>x. ebind (at_const B i j) (\<lambda>y. at_upd r i j (\<lambda>_. x - y)))
        = Inr r' \<and> well_shaped r' \<and> rows r' = rows A \<and> cols r' = cols A
        \<and> (\<forall>a b. a < rows A \<longrightarrow> b < cols A \<longrightarrow>
              elem r' a b = (if a = i \<and> b = j then elem A i j - elem B i j else elem r a b))"
      using assms at_upd_ok [of r i j "\<lambda>_. elem A i j - elem B i j"]
      by (simp add: raw_get_ok at_const_ok ebind_Inr)
  qed (simp_all add: well_shaped_zero zero_sel)
  then show ?thesis
    using assms by (auto simp: operator_minus_def returning_def)
qed

lemma operator_times_scalar_ok:
  assumes "well_shaped A"
  shows "\<exists>R. operator_times_scalar A s = Inr R \<and> well_shaped R \<and> rows R = rows A
    \<and> cols R = cols A
    \<and> (\<forall>i j. i < rows A \<longrightarrow> j < cols A \<longrightarrow> elem R i j = elem A i j * s)"
proof -
  have "\<exists>r. for_upto (rows A) (\<lambda>i. for_upto (cols A) (\<lambda>j r. store r
          (ebind (raw_get A i j) (\<lambda>x. at_upd r i j (\<lambda>_. x * s)))))
        (Matrix_zero (rows A) (cols A)) = (r, None)
    \<and> well_shaped r \<and> rows r = rows A \<and> cols r = cols A
    \<and> (\<forall>a b. a < rows A \<longrightarrow> b < cols A \<longrightarrow> elem r a b = elem A a b * s)"
  proof (rule elementwise_loops)
    fix i j and r :: "'a Matrix"
    assume "i < rows A" "j < cols A" "well_shaped r" "rows r = rows A" "cols r = cols A"
    then show "\<exists>r'. ebind (raw_get A i j) (\<lambda>x. at_upd r i j (\<lambda>_. x * s))
        = Inr r' \<and> well_shaped r' \<and> rows r' = rows A \<and> cols r' = cols A
        \<and> (\<forall>a b. a < rows A \<longrightarrow> b < cols A \<longrightarrow>
              elem r' a b = (if a = i \<and> b = j then elem A i j * s else elem r a b))"
      using assms at_upd_ok [of r i j "\<lambda>_. elem A i j * s"]
      by (simp add: raw_get_ok ebind_Inr)
  qed (simp_all add: well_shaped_zero zero_sel)
  then show ?thesis
    by (auto simp: operator_times_scalar_def returning_def)
qed

text \<open>
  C4: for well-shaped \<open>A\<close> and \<open>B\<close>, \<^verbatim>\<open>A + B\<close> and \<^verbatim>\<open>A - B\<close> throw the
  dimension-mismatch exception (\<^verbatim>\<open>std::invalid_argument\<close> with the message
  "Matrix dimensions do not match") exactly when the row counts or the column counts
  differ, and return a matrix otherwise; \<^verbatim>\<open>A * B\<close> throws its dimension-mismatch
  exception exactly when \<open>cols A \<noteq> rows B\<close>.  A throw is the \<open>Inl\<close> branch: no matrix
  is returned with it.
\<close>

theorem dimension_checks:
  assumes "well_shaped A" "well_shaped B"
  shows "(operator_plus A B = Inl (invalid_argument ''Matrix dimensions do not match'')
            \<longleftrightarrow> \<not> (rows A = rows B \<and> cols A = cols B))
    \<and> (operator_minus A B = Inl (invalid_argument ''Matrix dimensions do not match'')
            \<longleftrightarrow> \<not> (rows A = rows B \<and> cols A = cols B))
    \<and> (operator_times A B = Inl (invalid_argument ''Invlaid dimensions for matrix multiplication'')
            \<longleftrightarrow> cols A \<noteq> rows B)
    \<and> (rows A = rows B \<and> cols A = cols B
          \<longrightarrow> (\<exists>R. operator_plus A B = Inr R) \<and> (\<exists>R. operator_minus A B = Inr R))"
proof (intro conjI)
  show "operator_plus A B = Inl (invalid_argument ''Matrix dimensions do not match'')
            \<longleftrightarrow> \<not> (rows A = rows B \<and> cols A = cols B)"
  proof (cases "rows A = rows B \<and> cols A = cols B")
    case True
    with operator_plus_ok [OF assms] show ?thesis by auto
  next
    case False
    then show ?thesis by (auto simp: operator_plus_def)
  qed
  show "operator_minus A B = Inl (invalid_argument ''Matrix dimensions do not match'')
            \<longleftrightarrow> \<not> (rows A = rows B \<and> cols A = cols B)"
  proof (cases "rows A = rows B \<and> cols A = cols B")
    case True
    with operator_minus_ok [OF assms] show ?thesis by auto
  next
    case False
    then show ?thesis by (auto simp: operator_minus_def)
  qed
  show "operator_times A B = Inl (invalid_argument ''Invlaid dimensions for matrix multiplication'')
            \<longleftrightarrow> cols A \<noteq> rows B"
  proof (cases "cols A = rows B")
    case True
    then show ?thesis by (simp add: operator_times_zero)
  next
    case False
    then show ?thesis by (simp add: operator_times_def)
  qed
  show "rows A = rows B \<and> cols A = cols B
          \<longrightarrow> (\<exists>R. operator_plus A B = Inr R) \<and> (\<exists>R. operator_minus A B = Inr R)"
    using operator_plus_ok [OF assms] operator_minus_ok [OF assms] by blast
qed

theorem dimension_checks_witness:
  "well_shaped A22 \<and> well_shaped M23 \<and> well_shaped M32
   \<and> operator_plus A22 M23 = Inl (invalid_argument ''Matrix dimensions do not match'')
   \<and> operator_minus A22 M23 = Inl (invalid_argument ''Matrix dimensions do not match'')
   \<and> operator_times A22 M32 = Inl (invalid_argument ''Invlaid dimensions for matrix multiplication'')
   \<and> operator_times A22 M23 \<noteq> Inl (invalid_argument ''Invlaid dimensions for matrix multiplication'')
   \<and> operator_plus A22 A22 \<noteq> Inl (invalid_argument ''Matrix dimensions do not match'')"
proof -
  have d: "\<not> (rows A22 = rows M23 \<and> cols A22 = cols M23)" "cols A22 \<noteq> rows M32"
    "\<not> cols A22 \<noteq> rows M23"
    by (simp_all add: A22_def M23_def M32_def)
  show ?thesis
    using dimension_checks [OF ws_A22 ws_M23] dimension_checks [OF ws_A22 ws_M32]
      dimension_checks [OF ws_A22 ws_A22] d ws_A22 ws_M23 ws_M32
    by blast
qed

text \<open>
  C5: for a well-shaped \<open>A\<close>, \<^verbatim>\<open>A / s\<close> fails exactly when \<open>s = 0\<close>, then with
  \<^verbatim>\<open>std::invalid_argument("Division by zero")\<close>; for every other \<open>s\<close> it is
  \<^verbatim>\<open>A * (1.0 / s)\<close>.
\<close>

theorem divide_by_scalar:
  assumes "well_shaped A"
  shows "((\<exists>e. operator_divide A s = Inl e) \<longleftrightarrow> s = 0)
    \<and> (s = 0 \<longrightarrow> operator_divide A s = Inl (invalid_argument ''Division by zero''))
    \<and> (s \<noteq> 0 \<longrightarrow> operator_divide A s = operator_times_scalar A (1 / s))"
  using operator_times_scalar_ok [OF assms, of "1 / s"]
  by (auto simp: operator_divide_def)

theorem divide_by_scalar_witness:
  "well_shaped A22
   \<and> operator_divide A22 0 = Inl (invalid_argument ''Division by zero'')
   \<and> (2::real) \<noteq> 0
   \<and> operator_divide A22 2 = operator_times_scalar A22 (1 / 2)
   \<and> operator_divide A22 2 \<noteq> Inl (invalid_argument ''Division by zero'')"
proof -
  have "(2::real) \<noteq> 0"
    by simp
  then show ?thesis
    using divide_by_scalar [OF ws_A22, of 0] divide_by_scalar [OF ws_A22, of 2] ws_A22
    by blast
qed

section \<open>The matrix product\<close>

text \<open>
  C1: the product of \<open>A = [[1,2],[3,4]]\<close> and \<open>B = [[5,6],[7,8]]\<close> should be
  \<open>[[19,22],[43,50]]\<close>, each element the dot product of a row of \<open>A\<close> and a column of
  \<open>B\<close>.  The code returns the 2 \<times> 2 zero matrix instead: the shape is right, the
  elements are never accumulated.
\<close>

theorem operator_times_2x2:
  "operator_times A22 B22 = Inr \<lparr>data = [[0, 0], [0, 0]], rows = 2, cols = 2\<rparr>
   \<and> operator_times A22 B22 \<noteq> Inr \<lparr>data = [[19, 22], [43, 50]], rows = 2, cols = 2\<rparr>"
  by (simp add: operator_times_zero A22_def B22_def Matrix_zero_def numeral_2_eq_2)

section \<open>In-place addition and subtraction\<close>

text \<open>
  C6: when the shapes of \<open>A\<close> and \<open>B\<close> differ, \<^verbatim>\<open>A += B\<close> and \<^verbatim>\<open>A -= B\<close> throw the
  exception of \<^verbatim>\<open>A + B\<close> and \<^verbatim>\<open>A - B\<close>, and \<open>A\<close> is left as it was.
\<close>

theorem in_place_mismatch:
  assumes "\<not> (rows A = rows B \<and> cols A = cols B)"
  shows "operator_plus A B = Inl (invalid_argument ''Matrix dimensions do not match'')
    \<and> operator_plus_assign A B = (A, Some (invalid_argument ''Matrix dimensions do not match''))
    \<and> operator_minus A B = Inl (invalid_argument ''Matrix dimensions do not match'')
    \<and> operator_minus_assign A B = (A, Some (invalid_argument ''Matrix dimensions do not match''))"
  using assms
  by (auto simp: operator_plus_def operator_plus_assign_def operator_minus_def
      operator_minus_assign_def)

theorem in_place_mismatch_witness:
  "\<not> (rows A22 = rows (Matrix_zero 2 3 :: real Matrix)
      \<and> cols A22 = cols (Matrix_zero 2 3 :: real Matrix))
   \<and> operator_plus_assign A22 (Matrix_zero 2 3) =
       (A22, Some (invalid_argument ''Matrix dimensions do not match''))
   \<and> operator_minus_assign A22 (Matrix_zero 2 3) =
       (A22, Some (invalid_argument ''Matrix dimensions do not match''))"
proof -
  have h: "\<not> (rows A22 = rows (Matrix_zero 2 3 :: real Matrix)
      \<and> cols A22 = cols (Matrix_zero 2 3 :: real Matrix))"
    by (simp add: A22_def Matrix_zero_def)
  from in_place_mismatch [OF h] h show ?thesis
    by blast
qed

section \<open>Transpose\<close>

lemma transpose_ok:
  assumes A: "well_shaped A"
  shows "\<exists>T. transpose_m A = Inr T \<and> well_shaped T \<and> rows T = cols A \<and> cols T = rows A
    \<and> (\<forall>i j. i < rows A \<longrightarrow> j < cols A \<longrightarrow> elem T j i = elem A i j)"
proof -
  let ?body = "\<lambda>i j r. store r (ebind (raw_get A i j) (\<lambda>x. at_upd r j i (\<lambda>_. x)))"
  let ?S = "\<lambda>r. well_shaped r \<and> rows r = cols A \<and> cols r = rows A"
  let ?P = "\<lambda>i r. ?S r \<and> (\<forall>a b. a < i \<longrightarrow> b < cols A \<longrightarrow> elem r b a = elem A a b)"
  have "\<exists>t. for_upto (rows A) (\<lambda>i. for_upto (cols A) (?body i))
          (Matrix_zero (cols A) (rows A)) = (t, None) \<and> ?P (rows A) t"
  proof (rule for_upto_rule [where P = ?P])
    show "?P 0 (Matrix_zero (cols A) (rows A))"
      by (simp add: well_shaped_zero zero_sel)
  next
    fix k t
    assume k: "k < rows A" and t: "?P k t"
    let ?Q = "\<lambda>j r. ?S r \<and> (\<forall>a b. a < k \<longrightarrow> b < cols A \<longrightarrow> elem r b a = elem A a b)
       \<and> (\<forall>b. b < j \<longrightarrow> elem r b k = elem A k b)"
    have "\<exists>t'. for_upto (cols A) (?body k) t = (t', None) \<and> ?Q (cols A) t'"
    proof (rule for_upto_rule [where P = ?Q])
      show "?Q 0 t"
        using t by simp
    next
      fix j r
      assume j: "j < cols A" and r: "?Q j r"
      from r j k at_upd_ok [of r j k "\<lambda>_. elem A k j"]
      obtain r' where r': "at_upd r j k (\<lambda>_. elem A k j) = Inr r'" "?S r'"
        "\<And>a b. a < cols A \<Longrightarrow> b < rows A \<Longrightarrow>
              elem r' a b = (if a = j \<and> b = k then elem A k j else elem r a b)"
        by auto
      have "?Q (Suc j) r'"
        using r r' k j by (auto simp: less_Suc_eq)
      moreover have "?body k j r = (r', None)"
        using A k j r'(1) by (simp add: raw_get_ok ebind_Inr store_Inr)
      ultimately show "\<exists>t'. ?body k j r = (t', None) \<and> ?Q (Suc j) t'"
        by blast
    qed
    then obtain t' where t': "for_upto (cols A) (?body k) t = (t', None)" "?Q (cols A) t'"
      by blast
    have "?P (Suc k) t'"
      using t'(2) by (auto simp: less_Suc_eq)
    with t'(1) show "\<exists>t'. for_upto (cols A) (?body k) t = (t', None) \<and> ?P (Suc k) t'"
      by blast
  qed
  then show ?thesis
    by (auto simp: transpose_m_def returning_def)
qed

text \<open>
  C9: for every well-shaped \<open>A\<close>, square or not, empty or not, the transpose is returned
  without an error, has \<open>cols A\<close> rows and \<open>rows A\<close> columns, holds at \<open>(j, i)\<close> the
  element of \<open>A\<close> at \<open>(i, j)\<close>, and its own transpose is \<open>A\<close> again.
\<close>

theorem transpose_involution:
  assumes "well_shaped A"
  shows "\<exists>T. transpose_m A = Inr T \<and> well_shaped T \<and> rows T = cols A \<and> cols T = rows A
    \<and> (\<forall>i<rows A. \<forall>j<cols A. elem T j i = elem A i j)
    \<and> transpose_m T = Inr A"
proof -
  from transpose_ok [OF assms] obtain T where T: "transpose_m A = Inr T" "well_shaped T"
    "rows T = cols A" "cols T = rows A"
    "\<And>i j. i < rows A \<Longrightarrow> j < cols A \<Longrightarrow> elem T j i = elem A i j"
    by blast
  from transpose_ok [OF T(2)] obtain U where U: "transpose_m T = Inr U" "well_shaped U"
    "rows U = cols T" "cols U = rows T"
    "\<And>i j. i < rows T \<Longrightarrow> j < cols T \<Longrightarrow> elem U j i = elem T i j"
    by blast
  have "U = A"
  proof (rule Matrix_eqI)
    fix i j assume "i < rows U" "j < cols U"
    then show "elem U i j = elem A i j"
      using T U by simp
  qed (use assms T U in simp_all)
  with T U show ?thesis
    by blast
qed

theorem transpose_involution_witness:
  "well_shaped M23 \<and> well_shaped (Matrix_default :: real Matrix)
   \<and> transpose_m M23 = Inr M32 \<and> transpose_m M32 = Inr M23
   \<and> rows M32 = cols M23 \<and> cols M32 = rows M23
   \<and> (0::nat) < rows M23 \<and> (2::nat) < cols M23 \<and> elem M32 2 0 = elem M23 0 2
   \<and> transpose_m (Matrix_default :: real Matrix) = Inr Matrix_default"
proof -
  have e: "well_shaped (Matrix_default :: real Matrix)"
    by (simp add: well_shaped_def Matrix_default_def)
  have t: "transpose_m M23 = Inr M32"
    by (simp add: transpose_m_def M23_def M32_def for_upto_def Matrix_zero_def store_def
        ebind_def raw_get_def at_upd_def raw_upd_def returning_def upt_rec numeral_2_eq_2
        numeral_3_eq_3)
  have d: "transpose_m (Matrix_default :: real Matrix) = Inr Matrix_default"
    by (simp add: transpose_m_def Matrix_default_def for_upto_def Matrix_zero_def returning_def)
  have b: "(0::nat) < rows M23" "(2::nat) < cols M23"
    by (simp_all add: M23_def)
  from transpose_involution [OF ws_M23] t b transpose_involution [OF e] d ws_M23 e
  show ?thesis
    by auto
qed

section \<open>Random initialisation\<close>

text \<open>
  C2: randomize should write every one of the \<open>rows \<times> cols\<close> elements.  On a 1 \<times> 2
  matrix the code draws once and writes position (0, 0) only: position (0, 1) keeps the
  value \<open>b\<close> it had, whatever the distribution and the engine are.
\<close>

theorem randomize_1x2:
  "randomize dis min_v max_v (\<lparr>data = [[a, b]], rows = 1, cols = 2\<rparr>, gen) =
     ((\<lparr>data = [[fst (dis min_v max_v gen), b]], rows = 1, cols = 2\<rparr>,
       snd (dis min_v max_v gen)), None)"
  by (simp add: randomize_def for_upto_def raw_upd_def split: prod.splits)

lemma randomize_row_overrun:
  fixes m :: "'a Matrix" and dis :: "'a \<Rightarrow> 'a \<Rightarrow> 'g \<Rightarrow> 'a \<times> 'g" and g :: 'g
  assumes m: "well_shaped m" and lt: "cols m < rows m" and i: "i < rows m"
  shows "\<exists>st. for_upto (rows m) (\<lambda>j (m', gen).
         (case dis min_v max_v gen of
            (v, gen') \<Rightarrow>
              (case raw_upd m' i j (\<lambda>_. v) of
                 Inl e \<Rightarrow> ((m', gen'), Some e)
               | Inr m'' \<Rightarrow> ((m'', gen'), None)))) (m, g) = (st, Some (raw_index i (cols m)))"
proof -
  let ?body = "\<lambda>j (m', gen).
         (case dis min_v max_v gen of
            (v, gen') \<Rightarrow>
              (case raw_upd m' i j (\<lambda>_. v) of
                 Inl e \<Rightarrow> ((m', gen'), Some e)
               | Inr m'' \<Rightarrow> ((m'', gen'), None)))"
  let ?P = "\<lambda>(j::nat) (st :: 'a Matrix \<times> 'g).
     well_shaped (fst st) \<and> rows (fst st) = rows m \<and> cols (fst st) = cols m"
  have "\<exists>t. for_upto (cols m) ?body (m, g) = (t, None) \<and> ?P (cols m) t"
  proof (rule for_upto_rule [where P = ?P])
    show "?P 0 (m, g)"
      using m by simp
  next
    fix k and t :: "'a Matrix \<times> 'g"
    assume k: "k < cols m" and t: "?P k t"
    obtain m' gen where st: "t = (m', gen)"
      by (cases t)
    obtain v gen' where d: "dis min_v max_v gen = (v, gen')"
      by (cases "dis min_v max_v gen")
    from t st i k raw_upd_ok [of m' i k "\<lambda>_. v"]
    obtain m'' where "raw_upd m' i k (\<lambda>_. v) = Inr m''" "well_shaped m''"
      "rows m'' = rows m" "cols m'' = cols m"
      by auto
    then show "\<exists>t'. ?body k t = (t', None) \<and> ?P (Suc k) t'"
      using st d by simp
  qed
  then obtain t where t: "for_upto (cols m) ?body (m, g) = (t, None)" "?P (cols m) t"
    by blast
  obtain m' gen where st: "t = (m', gen)"
    by (cases t)
  obtain v gen' where d: "dis min_v max_v gen = (v, gen')"
    by (cases "dis min_v max_v gen")
  have "length (data m' ! i) = cols m"
    using t(2) st i well_shaped_nth [of m' i] by simp
  then have "raw_upd m' i (cols m) (\<lambda>_. v) = Inl (raw_index i (cols m))"
    by (simp add: raw_upd_def)
  then have "?body (cols m) t = ((m', gen'), Some (raw_index i (cols m)))"
    using st d by simp
  from for_upto_stop [OF lt t(1) this] show ?thesis
    by blast
qed

lemma randomize_overrun:
  fixes m :: "'a Matrix" and dis :: "'a \<Rightarrow> 'a \<Rightarrow> 'g \<Rightarrow> 'a \<times> 'g" and gen :: 'g
  assumes "well_shaped m" and "cols m < rows m"
  shows "snd (randomize dis min_v max_v (m, gen)) = Some (raw_index 0 (cols m))"
proof -
  let ?inner = "\<lambda>i. for_upto (rows m) (\<lambda>j (m', gen).
         (case dis min_v max_v gen of
            (v, gen') \<Rightarrow>
              (case raw_upd m' i j (\<lambda>_. v) of
                 Inl e \<Rightarrow> ((m', gen'), Some e)
               | Inr m'' \<Rightarrow> ((m'', gen'), None))))"
  have z: "0 < rows m"
    using assms(2) by simp
  from randomize_row_overrun [OF assms z, of dis min_v max_v gen] obtain st where
    st: "?inner 0 (m, gen) = (st, Some (raw_index 0 (cols m)))"
    by blast
  have "for_upto (rows m) ?inner (m, gen) = (st, Some (raw_index 0 (cols m)))"
    using z for_upto_0 st by (rule for_upto_stop)
  then show ?thesis
    by (simp add: randomize_def)
qed

text \<open>
  C3: on a well-shaped matrix with more rows than columns, randomize, and xavierInit
  which calls it, reaches a write \<^verbatim>\<open>data[0][j]\<close> at the column \<open>j = cols m\<close>, which
  lies in the range \<open>cols m \<le> j < rows m\<close> and outside every row of the storage.
\<close>

theorem randomize_out_of_bounds:
  fixes m :: "'a::{uminus,inverse} Matrix"
  assumes "well_shaped m" and "cols m < rows m"
  shows "snd (randomize dis min_v max_v (m, gen)) = Some (raw_index 0 (cols m))
    \<and> snd (xavierInit sqrt_d of_size dis (m, gen)) = Some (raw_index 0 (cols m))"
  using assms by (simp add: xavierInit_def Let_def randomize_overrun)

theorem randomize_out_of_bounds_witness:
  "well_shaped M21 \<and> cols M21 < rows M21
   \<and> snd (randomize counter_dis 0 1 (M21, 0)) = Some (raw_index 0 1)
   \<and> snd (xavierInit sqrt real counter_dis (M21, 0)) = Some (raw_index 0 1)"
proof -
  have h: "well_shaped M21" "cols M21 < rows M21" "cols M21 = 1"
    by (simp_all add: well_shaped_def M21_def)
  from randomize_out_of_bounds [OF h(1,2), of counter_dis 0 1 0 sqrt real] h show ?thesis
    by simp
qed

section \<open>Fill and identity\<close>

lemma fill_ok:
  assumes "well_shaped A"
  shows "\<exists>m. fill A v = (m, None) \<and> well_shaped m \<and> rows m = rows A \<and> cols m = cols A
    \<and> (\<forall>i j. i < rows A \<longrightarrow> j < cols A \<longrightarrow> elem m i j = v)"
  unfolding fill_def
proof (rule elementwise_loops)
  fix i j and r :: "'a Matrix"
  assume "i < rows A" "j < cols A" "well_shaped r" "rows r = rows A" "cols r = cols A"
  then show "\<exists>r'. raw_upd r i j (\<lambda>_. v) = Inr r' \<and> well_shaped r' \<and> rows r' = rows A
      \<and> cols r' = cols A
      \<and> (\<forall>a b. a < rows A \<longrightarrow> b < cols A \<longrightarrow>
            elem r' a b = (if a = i \<and> b = j then v else elem r a b))"
    using raw_upd_ok [of r i j "\<lambda>_. v"] by simp
qed (use assms in simp_all)

text \<open>
  C7: for a well-shaped \<open>A\<close>, identity throws
  \<^verbatim>\<open>std::invalid_argument("Indentity Matrix must be square")\<close> exactly when
  \<open>rows A \<noteq> cols A\<close>; on a square \<open>A\<close> it returns normally and leaves 1 at every
  diagonal position and 0 at every other position.
\<close>

theorem identity_square:
  assumes A: "well_shaped A"
  shows "(snd (identity A) = Some (invalid_argument ''Indentity Matrix must be square'')
            \<longleftrightarrow> rows A \<noteq> cols A)
    \<and> (rows A = cols A \<longrightarrow>
         (\<exists>m. identity A = (m, None) \<and> well_shaped m \<and> rows m = rows A \<and> cols m = cols A
            \<and> (\<forall>i<rows A. \<forall>j<cols A. elem m i j = (if i = j then 1 else 0))))"
proof (cases "rows A = cols A")
  case False
  then show ?thesis
    by (simp add: identity_def)
next
  case True
  from fill_ok [OF A, of 0] obtain z where z: "fill A 0 = (z, None)" "well_shaped z"
    "rows z = rows A" "cols z = cols A"
    "\<And>i j. i < rows A \<Longrightarrow> j < cols A \<Longrightarrow> elem z i j = 0"
    by blast
  let ?body = "\<lambda>i m'. store m' (raw_upd m' i i (\<lambda>_. 1))"
  let ?P = "\<lambda>k m. well_shaped m \<and> rows m = rows A \<and> cols m = cols A
     \<and> (\<forall>i j. i < rows A \<longrightarrow> j < cols A \<longrightarrow> elem m i j = (if i = j \<and> i < k then 1 else 0))"
  have "\<exists>t. for_upto (rows A) ?body z = (t, None) \<and> ?P (rows A) t"
  proof (rule for_upto_rule [where P = ?P])
    show "?P 0 z"
      using z by simp
  next
    fix k r
    assume k: "k < rows A" and r: "?P k r"
    from r k True raw_upd_ok [of r k k "\<lambda>_. 1"]
    obtain r' where r': "raw_upd r k k (\<lambda>_. 1) = Inr r'" "well_shaped r'"
      "rows r' = rows A" "cols r' = cols A"
      "\<And>a b. a < rows A \<Longrightarrow> b < cols A \<Longrightarrow>
            elem r' a b = (if a = k \<and> b = k then 1 else elem r a b)"
      by auto
    have "?P (Suc k) r'"
      using r r' k by (auto simp: less_Suc_eq)
    with r'(1) show "\<exists>t'. ?body k r = (t', None) \<and> ?P (Suc k) t'"
      by (simp add: store_Inr)
  qed
  then obtain t where t: "for_upto (rows A) ?body z = (t, None)" "?P (rows A) t"
    by blast
  have "identity A = (t, None)"
    using True z t(1) by (simp add: identity_def)
  moreover have "\<forall>i<rows A. \<forall>j<cols A. elem t i j = (if i = j then 1 else 0)"
    using t(2) by simp
  ultimately show ?thesis
    using True t(2) by simp
qed

theorem identity_square_witness:
  "well_shaped A22 \<and> well_shaped M23 \<and> rows A22 = cols A22 \<and> rows M23 \<noteq> cols M23
   \<and> snd (identity M23) = Some (invalid_argument ''Indentity Matrix must be square'')
   \<and> snd (identity A22) \<noteq> Some (invalid_argument ''Indentity Matrix must be square'')
   \<and> identity A22 = (\<lparr>data = [[1, 0], [0, 1]], rows = 2, cols = 2\<rparr>, None)"
proof -
  have s: "rows A22 = cols A22" "rows M23 \<noteq> cols M23"
    by (simp_all add: A22_def M23_def)
  let ?I = "\<lparr>data = [[1, 0], [0, 1::real]], rows = 2, cols = 2\<rparr>"
  from identity_square [OF ws_A22] s obtain m where m: "identity A22 = (m, None)"
    "well_shaped m" "rows m = rows A22" "cols m = cols A22"
    "\<forall>i<rows A22. \<forall>j<cols A22. elem m i j = (if i = j then 1 else 0)"
    by blast
  have "m = ?I"
  proof (rule Matrix_eqI)
    fix i j assume "i < rows m" "j < cols m"
    then show "elem m i j = elem ?I i j"
      using m by (auto simp: A22_def elem_def less_Suc_eq numeral_2_eq_2)
  qed (use m in \<open>simp_all add: well_shaped_def A22_def\<close>)
  with m(1) identity_square [OF ws_A22] identity_square [OF ws_M23] s ws_A22 ws_M23
  show ?thesis
    by auto
qed

section \<open>Column access\<close>

lemma getCol_ok:
  assumes A: "well_shaped A" and c: "c < cols A"
  shows "\<exists>C. getCol A c = Inr C \<and> well_shaped C \<and> rows C = rows A \<and> cols C = 1
    \<and> (\<forall>i. i < rows A \<longrightarrow> elem C i 0 = elem A i c)"
proof -
  let ?body = "\<lambda>i r. store r (ebind (raw_get A i c) (\<lambda>x. at_upd r i 0 (\<lambda>_. x)))"
  let ?P = "\<lambda>i r. well_shaped r \<and> rows r = rows A \<and> cols r = 1
     \<and> (\<forall>a. a < i \<longrightarrow> elem r a 0 = elem A a c)"
  have "\<exists>t. for_upto (rows A) ?body (Matrix_zero (rows A) 1) = (t, None) \<and> ?P (rows A) t"
  proof (rule for_upto_rule [where P = ?P])
    show "?P 0 (Matrix_zero (rows A) 1)"
      by (simp add: well_shaped_zero zero_sel)
  next
    fix k r
    assume k: "k < rows A" and r: "?P k r"
    from r k at_upd_ok [of r k 0 "\<lambda>_. elem A k c"]
    obtain r' where r': "at_upd r k 0 (\<lambda>_. elem A k c) = Inr r'" "well_shaped r'"
      "rows r' = rows A" "cols r' = 1"
      "\<And>a. a < rows A \<Longrightarrow> elem r' a 0 = (if a = k then elem A k c else elem r a 0)"
      by auto
    have "?P (Suc k) r'"
      using r r' k by (auto simp: less_Suc_eq)
    moreover have "?body k r = (r', None)"
      using A k c r'(1) by (simp add: raw_get_ok ebind_Inr store_Inr)
    ultimately show "\<exists>t'. ?body k r = (t', None) \<and> ?P (Suc k) t'"
      by blast
  qed
  then show ?thesis
    using c by (auto simp: getCol_def returning_def)
qed

text \<open>
  C8: for a well-shaped \<open>A\<close> and a column index \<open>c < cols A\<close>, getCol returns a
  column matrix \<open>C\<close>, and \<^verbatim>\<open>A.setCol(c, C)\<close> returns normally with \<open>A\<close> exactly
  as it was.
\<close>

theorem setCol_getCol:
  assumes A: "well_shaped A" and c: "c < cols A"
  shows "\<exists>C. getCol A c = Inr C \<and> setCol A c C = (A, None)"
proof -
  from getCol_ok [OF A c] obtain C where C: "getCol A c = Inr C" "well_shaped C"
    "rows C = rows A" "cols C = 1" "\<And>i. i < rows A \<Longrightarrow> elem C i 0 = elem A i c"
    by blast
  let ?body = "\<lambda>i m. store m (ebind (at_const C i 0) (\<lambda>x. raw_upd m i c (\<lambda>_. x)))"
  have "\<exists>t. for_upto (rows A) ?body A = (t, None) \<and> t = A"
  proof (rule for_upto_rule [where P = "\<lambda>i m. m = A"])
    fix k t
    assume k: "k < rows A" and t: "t = A"
    have "at_const C k 0 = Inr (elem A k c)"
      using C k by (simp add: at_const_ok)
    then have "?body k t = (A, None)"
      using t A k c by (simp add: ebind_Inr raw_upd_same store_Inr)
    then show "\<exists>t'. ?body k t = (t', None) \<and> t' = A"
      by simp
  qed simp
  then have "setCol A c C = (A, None)"
    using c C by (simp add: setCol_def)
  with C(1) show ?thesis
    by blast
qed

theorem setCol_getCol_witness:
  "well_shaped M23 \<and> (1::nat) < cols M23
   \<and> getCol M23 1 = Inr \<lparr>data = [[2], [5]], rows = 2, cols = 1\<rparr>
   \<and> setCol M23 1 \<lparr>data = [[2], [5]], rows = 2, cols = 1\<rparr> = (M23, None)"
proof -
  have c: "(1::nat) < cols M23"
    by (simp add: M23_def)
  have g: "getCol M23 1 = Inr \<lparr>data = [[2], [5]], rows = 2, cols = 1\<rparr>"
    by (simp add: getCol_def M23_def for_upto_def Matrix_zero_def store_def
        ebind_def raw_get_def at_upd_def raw_upd_def returning_def upt_rec numeral_2_eq_2)
  from setCol_getCol [OF ws_M23 c] g c ws_M23 show ?thesis
    by auto
qed

section \<open>Resize\<close>

text \<open>
  C10: for all \<open>r\<close> and \<open>c\<close>, \<open>resize\<close> returns without an error and leaves an
  \<open>r \<times> c\<close> matrix whose elements are all 0, whatever the matrix was before.
\<close>

theorem resize_zero:
  "resize A r c = Matrix_zero r c \<and> well_shaped (resize A r c)
   \<and> rows (resize A r c) = r \<and> cols (resize A r c) = c
   \<and> (\<forall>i<r. \<forall>j<c. elem (resize A r c) i j = 0)"
proof -
  have "resize A r c = Matrix_zero r c"
    by (simp add: resize_def Matrix_zero_def)
  then show ?thesis
    by (simp add: well_shaped_zero zero_sel)
qed

theorem resize_zero_witness:
  "resize A22 1 2 = \<lparr>data = [[0, 0]], rows = 1, cols = 2\<rparr>
   \<and> (0::nat) < 1 \<and> (1::nat) < 2 \<and> elem (resize A22 1 2) 0 1 = 0"
  using resize_zero [of A22 1 2]
  by (simp add: Matrix_zero_def numeral_2_eq_2 elem_def)

end
